theory Spec2Isabelle
  imports Main "HOL-Library.Multiset"
begin

section \<open>The waitlist store of App.tsx\<close>

text \<open>
  The store is the group of functions at the top of \<^verbatim>\<open>src/src/App.tsx\<close>
  (and, again, of \<^verbatim>\<open>src/unnamed/part_000\<close>): \<^verbatim>\<open>generateReferralCode\<close>,
  \<^verbatim>\<open>getWaitlist\<close>, \<^verbatim>\<open>saveWaitlist\<close>, \<^verbatim>\<open>findUserByEmail\<close>,
  \<^verbatim>\<open>findUserByCode\<close>, \<^verbatim>\<open>addUser\<close>, \<^verbatim>\<open>getReferralCount\<close> and
  \<^verbatim>\<open>getUserRank\<close>. They read and write one entry of the browser's local storage.
\<close>

subsection \<open>Strings\<close>

text \<open>
  A JavaScript string is a sequence of 16-bit code units; a code unit is a natural number
  here. \<open>js\<close> writes a string of code units below 256 from a HOL literal.
\<close>

type_synonym jsstring = "nat list"

definition js :: "string \<Rightarrow> jsstring" where
  "js s = map of_char s"

text \<open>The two exceptions the store functions can raise.\<close>

datatype exn = TypeError | InvalidCharacterError

text \<open>
  \<^verbatim>\<open>String.prototype.toLowerCase\<close> is the host's Unicode case mapping. The store
  functions take it as the parameter \<open>lc\<close>, and nothing is assumed about it. The
  concrete examples use its restriction to strings of code units below 256: there it
  shifts A to Z, and the capital letters from U+00C0 to U+00DE other than the
  multiplication sign U+00D7, by 32 and keeps every other code unit.
\<close>

definition toLowerCase_latin1 :: "jsstring \<Rightarrow> jsstring" where
  "toLowerCase_latin1 s =
     map (\<lambda>u. if (65 \<le> u \<and> u \<le> 90) \<or> (192 \<le> u \<and> u \<le> 222 \<and> u \<noteq> 215) then u + 32 else u) s"

subsection \<open>btoa and the referral code\<close>

text \<open>
  \<^verbatim>\<open>btoa\<close> raises \<^verbatim>\<open>InvalidCharacterError\<close> when a code unit of its argument is
  above 255, and otherwise encodes the code units as bytes in Base64 with padding.
\<close>

definition b64_alphabet :: jsstring where
  "b64_alphabet = js ''ABCDEFGHIJKLMNOPQRSTUVWXYZabcdefghijklmnopqrstuvwxyz0123456789+/''"

definition b64_digit :: "nat \<Rightarrow> nat" where
  "b64_digit i = b64_alphabet ! i"

definition b64_pad :: nat where
  "b64_pad = 61"

fun b64_encode :: "nat list \<Rightarrow> jsstring" where
  "b64_encode (a # b # c # rest) =
     b64_digit (a div 4) # b64_digit ((a mod 4) * 16 + b div 16)
       # b64_digit ((b mod 16) * 4 + c div 64) # b64_digit (c mod 64) # b64_encode rest"
| "b64_encode [a, b] =
     [b64_digit (a div 4), b64_digit ((a mod 4) * 16 + b div 16), b64_digit ((b mod 16) * 4), b64_pad]"
| "b64_encode [a] = [b64_digit (a div 4), b64_digit ((a mod 4) * 16), b64_pad, b64_pad]"
| "b64_encode [] = []"

definition btoa :: "jsstring \<Rightarrow> exn + jsstring" where
  "btoa s = (if \<forall>u \<in> set s. u < 256 then Inr (b64_encode s) else Inl InvalidCharacterError)"

text \<open>\<^verbatim>\<open>.replace(/=+$/, "")\<close>: the run of \<^verbatim>\<open>=\<close> at the end of the string is removed.\<close>

definition strip_padding :: "jsstring \<Rightarrow> jsstring" where
  "strip_padding s = rev (dropWhile (\<lambda>c. c = b64_pad) (rev s))"

definition generateReferralCode :: "jsstring \<Rightarrow> exn + jsstring" where
  "generateReferralCode mail =
     (case btoa mail of Inl e \<Rightarrow> Inl e | Inr s \<Rightarrow> Inr (strip_padding s))"

subsection \<open>Users, local storage and the heap\<close>

record WaitlistUser =
  email :: jsstring
  referralCode :: jsstring
  referredBy :: "jsstring option"
  referrals :: "jsstring list"

text \<open>
  The entry \<^verbatim>\<open>waitlist_users\<close> of local storage holds a text, which the program reads
  only through \<^verbatim>\<open>JSON.parse\<close> and writes only through \<^verbatim>\<open>JSON.stringify\<close>. The
  entry is represented by what \<^verbatim>\<open>JSON.parse\<close> makes of its text: the entry is absent
  (\<^verbatim>\<open>getItem\<close> returns \<^verbatim>\<open>null\<close>), or its text is empty, or its text is not JSON
  (\<^verbatim>\<open>JSON.parse\<close> raises \<^verbatim>\<open>SyntaxError\<close>), or its text is JSON and denotes a
  value. A JSON value is an array of user records or a value that is not an array.
  Arrays with elements that are not user records are outside this model, and so is a
  storage that refuses to be read or written.
\<close>

datatype nonarray = JNull | JBool bool | JNum int | JStr jsstring | JObj

datatype json = JArr "WaitlistUser list" | JOther nonarray

datatype item = Absent | Text_empty | Text_invalid | Text_json json

text \<open>
  \<^verbatim>\<open>JSON.parse\<close> builds new objects at every call. User objects live in a heap, a
  list of records addressed by position, and an array of users is a list of addresses.
  A world is the storage entry together with the heap.
\<close>

type_synonym ref = nat

record world =
  storage :: item
  heap :: "WaitlistUser list"

datatype jsval = Array "ref list" | Other nonarray

definition alloc :: "WaitlistUser \<Rightarrow> world \<Rightarrow> ref \<times> world" where
  "alloc u w = (length (heap w), w\<lparr>heap := heap w @ [u]\<rparr>)"

definition JSON_parse :: "json \<Rightarrow> world \<Rightarrow> jsval \<times> world" where
  "JSON_parse v w =
     (case v of
        JArr us \<Rightarrow> (Array [length (heap w) ..< length (heap w) + length us], w\<lparr>heap := heap w @ us\<rparr>)
      | JOther x \<Rightarrow> (Other x, w))"

definition JSON_stringify :: "ref list \<Rightarrow> world \<Rightarrow> json" where
  "JSON_stringify rs w = JArr (map (\<lambda>r. heap w ! r) rs)"

subsection \<open>The store functions\<close>

definition getWaitlist :: "world \<Rightarrow> jsval \<times> world" where
  "getWaitlist w =
     (case storage w of
        Absent \<Rightarrow> (Array [], w)
      | Text_empty \<Rightarrow> (Array [], w)
      | Text_invalid \<Rightarrow> (Array [], w)
      | Text_json v \<Rightarrow> JSON_parse v w)"

definition saveWaitlist :: "ref list \<Rightarrow> world \<Rightarrow> world" where
  "saveWaitlist users w = w\<lparr>storage := Text_json (JSON_stringify users w)\<rparr>"

text \<open>\<^verbatim>\<open>.find\<close> on a value that is not an array raises \<^verbatim>\<open>TypeError\<close>.\<close>

definition findUserByEmail :: "(jsstring \<Rightarrow> jsstring) \<Rightarrow> jsstring \<Rightarrow> world \<Rightarrow> (exn + ref option) \<times> world" where
  "findUserByEmail lc mail w =
     (case getWaitlist w of
        (Array rs, w') \<Rightarrow> (Inr (List.find (\<lambda>r. lc (email (heap w' ! r)) = lc mail) rs), w')
      | (Other v, w') \<Rightarrow> (Inl TypeError, w'))"

definition findUserByCode :: "jsstring \<Rightarrow> world \<Rightarrow> (exn + ref option) \<times> world" where
  "findUserByCode code w =
     (case getWaitlist w of
        (Array rs, w') \<Rightarrow> (Inr (List.find (\<lambda>r. referralCode (heap w' ! r) = code) rs), w')
      | (Other v, w') \<Rightarrow> (Inl TypeError, w'))"

text \<open>The value \<^verbatim>\<open>{ user, error? }\<close> that \<^verbatim>\<open>addUser\<close> returns.\<close>

record result =
  user :: "ref option"
  error :: "jsstring option"

definition already_msg :: jsstring where
  "already_msg = js ''This email is already on the waitlist.''"

text \<open>
  The block \<^verbatim>\<open>if (referredByCode) { ... }\<close> of \<^verbatim>\<open>addUser\<close>. An absent code and the
  empty string are falsy. The referrer is looked up through \<^verbatim>\<open>findUserByCode\<close>, and
  the push changes the object at the address that \<^verbatim>\<open>find\<close> returned.
\<close>

definition record_referral :: "jsstring option \<Rightarrow> jsstring \<Rightarrow> world \<Rightarrow> (exn + unit) \<times> world" where
  "record_referral referredByCode mail w =
     (case referredByCode of
        None \<Rightarrow> (Inr (), w)
      | Some code \<Rightarrow>
          if code = [] then (Inr (), w)
          else
            (case findUserByCode code w of
               (Inl e, w') \<Rightarrow> (Inl e, w')
             | (Inr None, w') \<Rightarrow> (Inr (), w')
             | (Inr (Some referrer), w') \<Rightarrow>
                 if mail \<notin> set (referrals (heap w' ! referrer))
                 then (Inr (), w'\<lparr>heap := (heap w')[referrer :=
                         (heap w' ! referrer)\<lparr>referrals := referrals (heap w' ! referrer) @ [mail]\<rparr>]\<rparr>)
                 else (Inr (), w')))"

definition addUser :: "(jsstring \<Rightarrow> jsstring) \<Rightarrow> jsstring \<Rightarrow> jsstring option \<Rightarrow> world \<Rightarrow> (exn + result) \<times> world" where
  "addUser lc mail referredByCode w0 =
     (case getWaitlist w0 of (waitlist, w1) \<Rightarrow>
      (case findUserByEmail lc mail w1 of
         (Inl e, w2) \<Rightarrow> (Inl e, w2)
       | (Inr (Some found), w2) \<Rightarrow>
           (case findUserByEmail lc mail w2 of
              (Inl e, w3) \<Rightarrow> (Inl e, w3)
            | (Inr again, w3) \<Rightarrow> (Inr \<lparr>user = again, error = Some already_msg\<rparr>, w3))
       | (Inr None, w2) \<Rightarrow>
           (case generateReferralCode mail of
              Inl e \<Rightarrow> (Inl e, w2)
            | Inr code \<Rightarrow>
                (case alloc \<lparr>email = mail, referralCode = code,
                              referredBy = referredByCode, referrals = []\<rparr> w2 of
                   (new, w3) \<Rightarrow>
                     (case waitlist of
                        Other v \<Rightarrow> (Inl TypeError, w3)
                      | Array rs \<Rightarrow>
                          (case record_referral referredByCode mail w3 of
                             (Inl e, w4) \<Rightarrow> (Inl e, w4)
                           | (Inr u, w4) \<Rightarrow>
                               (Inr \<lparr>user = Some new, error = None\<rparr>,
                                saveWaitlist (rs @ [new]) w4)))))))"

definition getReferralCount :: "WaitlistUser \<Rightarrow> nat" where
  "getReferralCount u = length (referrals u)"

text \<open>
  The comparator of \<^verbatim>\<open>getUserRank\<close>, and \<^verbatim>\<open>Array.prototype.sort\<close>. The language
  requires the sort to be stable (since its 2019 edition), and the comparator is
  consistent, so the sorted array does not depend on the algorithm of the engine. Here it
  is built by insertion from the right, which places an element before the elements it
  does not compare greater than.
\<close>

definition rank_cmp :: "WaitlistUser \<Rightarrow> WaitlistUser \<Rightarrow> int" where
  "rank_cmp a b = int (getReferralCount b) - int (getReferralCount a)"

fun insert_cmp :: "('a \<Rightarrow> 'a \<Rightarrow> int) \<Rightarrow> 'a \<Rightarrow> 'a list \<Rightarrow> 'a list" where
  "insert_cmp cmp x [] = [x]"
| "insert_cmp cmp x (y # ys) = (if cmp x y \<le> 0 then x # y # ys else y # insert_cmp cmp x ys)"

definition sort_cmp :: "('a \<Rightarrow> 'a \<Rightarrow> int) \<Rightarrow> 'a list \<Rightarrow> 'a list" where
  "sort_cmp cmp xs = foldr (insert_cmp cmp) xs []"

fun find_idx :: "('a \<Rightarrow> bool) \<Rightarrow> 'a list \<Rightarrow> nat option" where
  "find_idx P [] = None"
| "find_idx P (x # xs) = (if P x then Some 0 else map_option Suc (find_idx P xs))"

definition findIndex :: "('a \<Rightarrow> bool) \<Rightarrow> 'a list \<Rightarrow> int" where
  "findIndex P xs = (case find_idx P xs of None \<Rightarrow> - 1 | Some i \<Rightarrow> int i)"

text \<open>
  \<^verbatim>\<open>[...waitlist]\<close> raises \<^verbatim>\<open>TypeError\<close> on a value that cannot be iterated. A string
  can: it spreads into its code points, which have no \<^verbatim>\<open>referrals\<close> and no
  \<^verbatim>\<open>email\<close>, so the comparator raises as soon as there are two of them, and
  \<^verbatim>\<open>findIndex\<close> finds nothing otherwise.
\<close>

definition one_code_point :: "jsstring \<Rightarrow> bool" where
  "one_code_point s =
     (case s of
        [] \<Rightarrow> True
      | [a] \<Rightarrow> True
      | [a, b] \<Rightarrow> 55296 \<le> a \<and> a < 56320 \<and> 56320 \<le> b \<and> b < 57344
      | _ \<Rightarrow> False)"

definition getUserRank :: "WaitlistUser \<Rightarrow> world \<Rightarrow> (exn + int) \<times> world" where
  "getUserRank usr w =
     (case getWaitlist w of
        (Array rs, w') \<Rightarrow>
          (let sorted = sort_cmp (\<lambda>a b. rank_cmp (heap w' ! a) (heap w' ! b)) rs
           in (Inr (findIndex (\<lambda>r. email (heap w' ! r) = email usr) sorted + 1), w'))
      | (Other (JStr s), w') \<Rightarrow> (if one_code_point s then Inr 0 else Inl TypeError, w')
      | (Other v, w') \<Rightarrow> (Inl TypeError, w'))"

subsection \<open>The persisted waitlist\<close>

text \<open>
  What a reader of the storage entry sees: the list of users, when the entry reads as
  one. An absent, empty or unreadable entry reads as the empty list.
\<close>

definition persisted :: "world \<Rightarrow> WaitlistUser list option" where
  "persisted w =
     (case storage w of
        Text_json (JArr us) \<Rightarrow> Some us
      | Text_json (JOther x) \<Rightarrow> None
      | _ \<Rightarrow> Some [])"

text \<open>The invariant of the data model: one user per lowercase email.\<close>

definition unique_emails :: "(jsstring \<Rightarrow> jsstring) \<Rightarrow> WaitlistUser list \<Rightarrow> bool" where
  "unique_emails lc ws = distinct (map (\<lambda>u. lc (email u)) ws)"

subsection \<open>The store functions of the second source file\<close>

text \<open>
  \<^verbatim>\<open>src/unnamed/part_000\<close> declares the same eight functions again, at its lines 14
  to 75. They are embedded from that file, over the same host functions.
\<close>

definition generateReferralCode_part000 :: "jsstring \<Rightarrow> exn + jsstring" where
  "generateReferralCode_part000 mail =
     (case btoa mail of Inl e \<Rightarrow> Inl e | Inr s \<Rightarrow> Inr (strip_padding s))"

definition getWaitlist_part000 :: "world \<Rightarrow> jsval \<times> world" where
  "getWaitlist_part000 w =
     (case storage w of
        Absent \<Rightarrow> (Array [], w)
      | Text_empty \<Rightarrow> (Array [], w)
      | Text_invalid \<Rightarrow> (Array [], w)
      | Text_json v \<Rightarrow> JSON_parse v w)"

definition saveWaitlist_part000 :: "ref list \<Rightarrow> world \<Rightarrow> world" where
  "saveWaitlist_part000 users w = w\<lparr>storage := Text_json (JSON_stringify users w)\<rparr>"

definition findUserByEmail_part000 :: "(jsstring \<Rightarrow> jsstring) \<Rightarrow> jsstring \<Rightarrow> world \<Rightarrow> (exn + ref option) \<times> world" where
  "findUserByEmail_part000 lc mail w =
     (case getWaitlist_part000 w of
        (Array rs, w') \<Rightarrow> (Inr (List.find (\<lambda>r. lc (email (heap w' ! r)) = lc mail) rs), w')
      | (Other v, w') \<Rightarrow> (Inl TypeError, w'))"

definition findUserByCode_part000 :: "jsstring \<Rightarrow> world \<Rightarrow> (exn + ref option) \<times> world" where
  "findUserByCode_part000 code w =
     (case getWaitlist_part000 w of
        (Array rs, w') \<Rightarrow> (Inr (List.find (\<lambda>r. referralCode (heap w' ! r) = code) rs), w')
      | (Other v, w') \<Rightarrow> (Inl TypeError, w'))"

definition record_referral_part000 :: "jsstring option \<Rightarrow> jsstring \<Rightarrow> world \<Rightarrow> (exn + unit) \<times> world" where
  "record_referral_part000 referredByCode mail w =
     (case referredByCode of
        None \<Rightarrow> (Inr (), w)
      | Some code \<Rightarrow>
          if code = [] then (Inr (), w)
          else
            (case findUserByCode_part000 code w of
               (Inl e, w') \<Rightarrow> (Inl e, w')
             | (Inr None, w') \<Rightarrow> (Inr (), w')
             | (Inr (Some referrer), w') \<Rightarrow>
                 if mail \<notin> set (referrals (heap w' ! referrer))
                 then (Inr (), w'\<lparr>heap := (heap w')[referrer :=
                         (heap w' ! referrer)\<lparr>referrals := referrals (heap w' ! referrer) @ [mail]\<rparr>]\<rparr>)
                 else (Inr (), w')))"

definition addUser_part000 :: "(jsstring \<Rightarrow> jsstring) \<Rightarrow> jsstring \<Rightarrow> jsstring option \<Rightarrow> world \<Rightarrow> (exn + result) \<times> world" where
  "addUser_part000 lc mail referredByCode w0 =
     (case getWaitlist_part000 w0 of (waitlist, w1) \<Rightarrow>
      (case findUserByEmail_part000 lc mail w1 of
         (Inl e, w2) \<Rightarrow> (Inl e, w2)
       | (Inr (Some found), w2) \<Rightarrow>
           (case findUserByEmail_part000 lc mail w2 of
              (Inl e, w3) \<Rightarrow> (Inl e, w3)
            | (Inr again, w3) \<Rightarrow> (Inr \<lparr>user = again, error = Some already_msg\<rparr>, w3))
       | (Inr None, w2) \<Rightarrow>
           (case generateReferralCode_part000 mail of
              Inl e \<Rightarrow> (Inl e, w2)
            | Inr code \<Rightarrow>
                (case alloc \<lparr>email = mail, referralCode = code,
                              referredBy = referredByCode, referrals = []\<rparr> w2 of
                   (new, w3) \<Rightarrow>
                     (case waitlist of
                        Other v \<Rightarrow> (Inl TypeError, w3)
                      | Array rs \<Rightarrow>
                          (case record_referral_part000 referredByCode mail w3 of
                             (Inl e, w4) \<Rightarrow> (Inl e, w4)
                           | (Inr u, w4) \<Rightarrow>
                               (Inr \<lparr>user = Some new, error = None\<rparr>,
                                saveWaitlist_part000 (rs @ [new]) w4)))))))"

definition getReferralCount_part000 :: "WaitlistUser \<Rightarrow> nat" where
  "getReferralCount_part000 u = length (referrals u)"

definition rank_cmp_part000 :: "WaitlistUser \<Rightarrow> WaitlistUser \<Rightarrow> int" where
  "rank_cmp_part000 a b = int (getReferralCount_part000 b) - int (getReferralCount_part000 a)"

definition getUserRank_part000 :: "WaitlistUser \<Rightarrow> world \<Rightarrow> (exn + int) \<times> world" where
  "getUserRank_part000 usr w =
     (case getWaitlist_part000 w of
        (Array rs, w') \<Rightarrow>
          (let sorted = sort_cmp (\<lambda>a b. rank_cmp_part000 (heap w' ! a) (heap w' ! b)) rs
           in (Inr (findIndex (\<lambda>r. email (heap w' ! r) = email usr) sorted + 1), w'))
      | (Other (JStr s), w') \<Rightarrow> (if one_code_point s then Inr 0 else Inl TypeError, w')
      | (Other v, w') \<Rightarrow> (Inl TypeError, w'))"

subsection \<open>Example data\<close>

text \<open>
  A first user, registered without a referral, the storage entry that holds this user
  alone, and the storage before anything was written.
\<close>

definition alice :: WaitlistUser where
  "alice = \<lparr>email = js ''alice@x.com'', referralCode = js ''YWxpY2VAeC5jb20'',
            referredBy = None, referrals = []\<rparr>"

definition world_alice :: world where
  "world_alice = \<lparr>storage = Text_json (JArr [alice]), heap = []\<rparr>"

definition world_empty :: world where
  "world_empty = \<lparr>storage = Absent, heap = []\<rparr>"

text \<open>
  A waitlist of three users, the second of whom has one referral, as a storage entry
  holds it.
\<close>

definition dave :: WaitlistUser where
  "dave = \<lparr>email = js ''dave@x.com'', referralCode = js ''ZGF2ZUB4LmNvbQ'',
           referredBy = None, referrals = []\<rparr>"

definition erin :: WaitlistUser where
  "erin = \<lparr>email = js ''erin@x.com'', referralCode = js ''ZXJpbkB4LmNvbQ'',
           referredBy = None, referrals = [js ''frank@x.com'']\<rparr>"

definition frank :: WaitlistUser where
  "frank = \<lparr>email = js ''frank@x.com'', referralCode = js ''ZnJhbmtAeC5jb20'',
            referredBy = Some (js ''ZXJpbkB4LmNvbQ''), referrals = []\<rparr>"

definition world_three :: world where
  "world_three = \<lparr>storage = Text_json (JArr [dave, erin, frank]), heap = []\<rparr>"

text \<open>A storage entry that holds the JSON text \<^verbatim>\<open>null\<close>.\<close>

definition world_null :: world where
  "world_null = \<lparr>storage = Text_json (JOther JNull), heap = []\<rparr>"

text \<open>
  A call of \<open>addUser\<close> succeeded when it returned, not raised, and returned no
  \<open>error\<close>.
\<close>

definition succeeded :: "exn + result \<Rightarrow> bool" where
  "succeeded r = (case r of Inl e \<Rightarrow> False | Inr res \<Rightarrow> error res = None)"

section \<open>Reading the storage entry\<close>

text \<open>
  When the entry reads as the waitlist \<open>ws\<close>, \<open>getWaitlist\<close> puts a copy of
  \<open>ws\<close> at the end of the heap and returns the addresses of the copy; the lookups
  search that copy.
\<close>

lemma getWaitlist_persisted:
  "persisted w = Some ws \<Longrightarrow>
     getWaitlist w = (Array [length (heap w) ..< length (heap w) + length ws], w\<lparr>heap := heap w @ ws\<rparr>)"
  by (auto simp: persisted_def getWaitlist_def JSON_parse_def split: item.splits json.splits)

lemma persisted_heap_update [simp]: "persisted (w\<lparr>heap := h\<rparr>) = persisted w"
  by (simp add: persisted_def)

lemma map_nth_fresh: "map ((!) (h @ us @ t)) [length h ..< length h + length us] = us"
proof -
  have "map ((!) (h @ us @ t)) [length h ..< length h + length us] = map ((!) us) [0 ..< length us]"
    by (rule nth_equalityI) (simp_all add: nth_append)
  then show ?thesis by (simp add: map_nth)
qed

lemma find_idx_None: "find_idx P xs = None \<longleftrightarrow> (\<forall>x \<in> set xs. \<not> P x)"
  by (induction xs) auto

lemma find_idx_Some:
  "find_idx P xs = Some i \<Longrightarrow> i < length xs \<and> P (xs ! i) \<and> (\<forall>j < i. \<not> P (xs ! j))"
proof (induction xs arbitrary: i)
  case Nil
  then show ?case by simp
next
  case (Cons x xs)
  show ?case
  proof (cases "P x")
    case True
    with Cons.prems show ?thesis by simp
  next
    case False
    with Cons.prems obtain k where k: "find_idx P xs = Some k" "i = Suc k" by auto
    from Cons.IH [OF k(1)] False k(2) show ?thesis
      by (auto simp: less_Suc_eq_0_disj)
  qed
qed

lemma find_idx_find: "map_option ((!) xs) (find_idx P xs) = List.find P xs"
  by (induction xs) (auto simp: option.map_comp comp_def)

lemma find_shift:
  "List.find (\<lambda>r. P ((h @ us @ t) ! r)) [length h ..< length h + length us]
     = map_option (\<lambda>i. length h + i) (find_idx P us)"
proof (induction us arbitrary: h)
  case Nil
  then show ?case by simp
next
  case (Cons u us)
  have "[length h ..< length h + length (u # us)] = length h # [length (h @ [u]) ..< length (h @ [u]) + length us]"
    by (subst upt_rec) simp
  moreover have "\<And>r. (h @ (u # us) @ t) ! r = ((h @ [u]) @ us @ t) ! r" by simp
  ultimately show ?case using Cons.IH [of "h @ [u]"]
    by (simp add: option.map_comp comp_def del: upt_Suc)
qed

lemma findUserByEmail_persisted:
  "persisted w = Some ws \<Longrightarrow>
     findUserByEmail lc m w =
       (Inr (map_option (\<lambda>i. length (heap w) + i) (find_idx (\<lambda>u. lc (email u) = lc m) ws)),
        w\<lparr>heap := heap w @ ws\<rparr>)"
  using find_shift [of "\<lambda>u. lc (email u) = lc m" "heap w" ws "[]"]
  by (simp add: findUserByEmail_def getWaitlist_persisted)

lemma findUserByCode_persisted:
  "persisted w = Some ws \<Longrightarrow>
     findUserByCode c w =
       (Inr (map_option (\<lambda>i. length (heap w) + i) (find_idx (\<lambda>u. referralCode u = c) ws)),
        w\<lparr>heap := heap w @ ws\<rparr>)"
  using find_shift [of "\<lambda>u. referralCode u = c" "heap w" ws "[]"]
  by (simp add: findUserByCode_def getWaitlist_persisted)

lemma record_referral_persisted:
  "persisted w = Some ws \<Longrightarrow> \<exists>t. record_referral code m w = (Inr (), w\<lparr>heap := heap w @ t\<rparr>)"
proof (cases "code = None \<or> code = Some []")
  case True
  have "w = w\<lparr>heap := heap w @ []\<rparr>" by simp
  with True show ?thesis by (auto simp: record_referral_def intro: exI [of _ "[]"])
next
  case False
  then obtain c where c: "code = Some c" "c \<noteq> []" by auto
  assume p: "persisted w = Some ws"
  show ?thesis
  proof (cases "find_idx (\<lambda>u. referralCode u = c) ws")
    case None
    with c p show ?thesis
      by (auto simp: record_referral_def findUserByCode_persisted)
  next
    case (Some i)
    then have i: "i < length ws" by (auto dest: find_idx_Some)
    then have upd: "(heap w @ ws)[length (heap w) + i := x] = heap w @ ws[i := x]" for x
      by (simp add: list_update_append)
    from c p Some i show ?thesis
      by (auto simp: record_referral_def findUserByCode_persisted upd nth_append)
  qed
qed


lemma addUser_existing:
  assumes p: "persisted w = Some ws"
    and f: "find_idx (\<lambda>u. lc (email u) = lc m) ws = Some i"
  shows "\<exists>r h'. addUser lc m code w = (Inr \<lparr>user = Some r, error = Some already_msg\<rparr>, w\<lparr>heap := h'\<rparr>)
           \<and> r < length h' \<and> h' ! r = ws ! i"
proof -
  from f have i: "i < length ws" by (auto dest: find_idx_Some)
  let ?r = "length (heap w) + length ws + length ws + i"
  let ?h = "heap w @ ws @ ws @ ws"
  have "addUser lc m code w = (Inr \<lparr>user = Some ?r, error = Some already_msg\<rparr>, w\<lparr>heap := ?h\<rparr>)"
    using p f by (simp add: addUser_def getWaitlist_persisted findUserByEmail_persisted)
  moreover have "?r < length ?h" using i by simp
  moreover have "?h ! ?r = ws ! i" using i by (simp add: nth_append)
  ultimately show ?thesis by blast
qed

lemma addUser_new:
  assumes p: "persisted w = Some ws"
    and f: "find_idx (\<lambda>u. lc (email u) = lc m) ws = None"
    and g: "generateReferralCode m = Inr c"
  shows "\<exists>r h'. addUser lc m code w =
           (Inr \<lparr>user = Some r, error = None\<rparr>,
            \<lparr>storage = Text_json (JArr (ws @ [\<lparr>email = m, referralCode = c, referredBy = code, referrals = []\<rparr>])),
             heap = h'\<rparr>)
           \<and> r < length h' \<and> h' ! r = \<lparr>email = m, referralCode = c, referredBy = code, referrals = []\<rparr>"
proof -
  let ?new = "\<lparr>email = m, referralCode = c, referredBy = code, referrals = []\<rparr>"
  let ?h3 = "heap w @ ws @ ws @ [?new]"
  let ?w3 = "w\<lparr>heap := ?h3\<rparr>"
  let ?r = "length (heap w) + length ws + length ws"
  let ?rs = "[length (heap w) ..< length (heap w) + length ws]"
  have p3: "persisted ?w3 = Some ws" using p by simp
  from record_referral_persisted [OF p3, of code m]
  obtain t where t: "record_referral code m ?w3 = (Inr (), ?w3\<lparr>heap := heap ?w3 @ t\<rparr>)" ..
  let ?h4 = "?h3 @ t"
  have m1: "map ((!) ?h4) ?rs = ws"
    using map_nth_fresh [of "heap w" ws "ws @ [?new] @ t"] by simp
  have m2: "?h4 ! ?r = ?new" by (simp add: nth_append)
  have "addUser lc m code w =
          (Inr \<lparr>user = Some ?r, error = None\<rparr>, \<lparr>storage = Text_json (JArr (ws @ [?new])), heap = ?h4\<rparr>)"
    using p f g t m1 m2
    by (simp add: addUser_def getWaitlist_persisted findUserByEmail_persisted alloc_def
        saveWaitlist_def JSON_stringify_def)
  moreover have "?r < length ?h4" by simp
  ultimately show ?thesis using m2 by blast
qed

lemma addUser_raises:
  assumes p: "persisted w = Some ws"
    and f: "find_idx (\<lambda>u. lc (email u) = lc m) ws = None"
    and g: "generateReferralCode m = Inl e"
  shows "\<exists>h'. addUser lc m code w = (Inl e, w\<lparr>heap := h'\<rparr>)"
  using p f g by (auto simp: addUser_def getWaitlist_persisted findUserByEmail_persisted)

lemma addUser_nonarray:
  "persisted w = None \<Longrightarrow> addUser lc m code w = (Inl TypeError, w)"
  by (auto simp: persisted_def addUser_def getWaitlist_def findUserByEmail_def JSON_parse_def
      split: item.splits json.splits)

section \<open>Registering an email that is already on the waitlist\<close>

text \<open>
  Claim C2. When the persisted waitlist already holds a user whose email equals the
  given one after lowercasing, \<open>addUser\<close> returns an object whose \<open>user\<close> is that
  user (the first such user of the waitlist) and whose \<open>error\<close> is the message
  "already on the waitlist", whatever referral code is passed; the storage entry is left
  as it was: no record is inserted and no record is changed.
\<close>

theorem register_existing_unchanged:
  assumes p: "persisted w = Some ws"
    and f: "List.find (\<lambda>u. lc (email u) = lc mail) ws = Some u"
  shows "\<exists>r w'. addUser lc mail code w = (Inr \<lparr>user = Some r, error = Some already_msg\<rparr>, w')
           \<and> r < length (heap w') \<and> heap w' ! r = u
           \<and> storage w' = storage w \<and> persisted w' = Some ws"
proof -
  from f obtain i where i: "find_idx (\<lambda>u. lc (email u) = lc mail) ws = Some i" and u: "ws ! i = u"
    using find_idx_find [of ws "\<lambda>u. lc (email u) = lc mail"] by auto
  from addUser_existing [OF p i, of code] obtain r h' where
    a: "addUser lc mail code w = (Inr \<lparr>user = Some r, error = Some already_msg\<rparr>, w\<lparr>heap := h'\<rparr>)"
    and r: "r < length h'" "h' ! r = ws ! i" by blast
  show ?thesis
    using a r u p by (intro exI [of _ r] exI [of _ "w\<lparr>heap := h'\<rparr>"]) simp
qed

theorem register_existing_unchanged_witness:
  "persisted world_alice = Some [alice]
   \<and> List.find (\<lambda>u. toLowerCase_latin1 (email u) = toLowerCase_latin1 (js ''ALICE@x.com'')) [alice] = Some alice
   \<and> (\<exists>r w'. addUser toLowerCase_latin1 (js ''ALICE@x.com'') (Some (js ''YWxpY2VAeC5jb20'')) world_alice
               = (Inr \<lparr>user = Some r, error = Some already_msg\<rparr>, w')
           \<and> r < length (heap w') \<and> heap w' ! r = alice
           \<and> storage w' = storage world_alice \<and> persisted w' = Some [alice])"
proof -
  have h1: "persisted world_alice = Some [alice]"
    by (simp add: persisted_def world_alice_def)
  have h2: "List.find (\<lambda>u. toLowerCase_latin1 (email u) = toLowerCase_latin1 (js ''ALICE@x.com'')) [alice] = Some alice"
    by (simp add: alice_def toLowerCase_latin1_def js_def)
  show ?thesis
    using h1 h2 register_existing_unchanged [OF h1 h2] by blast
qed

section \<open>The three outcomes of addUser\<close>

lemma addUser_cases:
  assumes p: "persisted w = Some ws"
  obtains
    (existing) i r h' where "find_idx (\<lambda>u. lc (email u) = lc mail) ws = Some i"
      "addUser lc mail code w = (Inr \<lparr>user = Some r, error = Some already_msg\<rparr>, w\<lparr>heap := h'\<rparr>)"
      "r < length h'" "h' ! r = ws ! i"
  | (raises) e h' where "find_idx (\<lambda>u. lc (email u) = lc mail) ws = None"
      "generateReferralCode mail = Inl e"
      "addUser lc mail code w = (Inl e, w\<lparr>heap := h'\<rparr>)"
  | (new) c r h' where "find_idx (\<lambda>u. lc (email u) = lc mail) ws = None"
      "generateReferralCode mail = Inr c"
      "addUser lc mail code w =
         (Inr \<lparr>user = Some r, error = None\<rparr>,
          \<lparr>storage = Text_json (JArr (ws @ [\<lparr>email = mail, referralCode = c, referredBy = code, referrals = []\<rparr>])),
           heap = h'\<rparr>)"
      "r < length h'" "h' ! r = \<lparr>email = mail, referralCode = c, referredBy = code, referrals = []\<rparr>"
proof (cases "find_idx (\<lambda>u. lc (email u) = lc mail) ws")
  case (Some i)
  with addUser_existing [OF p Some, of code] existing show ?thesis by blast
next
  case None
  show ?thesis
  proof (cases "generateReferralCode mail")
    case (Inl e)
    with addUser_raises [OF p None Inl, of code] raises None show ?thesis by blast
  next
    case (Inr c)
    with addUser_new [OF p None Inr, of code] new None show ?thesis by blast
  qed
qed

section \<open>What a successful registration writes\<close>

text \<open>
  Claim C8. When \<open>addUser\<close> succeeds, the persisted waitlist afterwards is the
  persisted waitlist before with exactly one record appended at its end: no record is
  removed or moved, and every earlier record is the same record as before, so its
  \<open>email\<close>, \<open>referralCode\<close> and \<open>referredBy\<close> are unchanged and so is its
  \<open>referrals\<close> list (the claim allows a change of the referrer's list; the code
  persists none). The appended record carries the given email, the code derived from it,
  the given referral code as \<open>referredBy\<close> and no referrals, and it is the user that
  \<open>addUser\<close> returns.
\<close>

theorem register_appends_one:
  assumes p: "persisted w = Some ws"
    and s: "succeeded (fst (addUser lc mail code w))"
  shows "\<exists>c r. generateReferralCode mail = Inr c
           \<and> persisted (snd (addUser lc mail code w))
               = Some (ws @ [\<lparr>email = mail, referralCode = c, referredBy = code, referrals = []\<rparr>])
           \<and> user (projr (fst (addUser lc mail code w))) = Some r
           \<and> heap (snd (addUser lc mail code w)) ! r
               = \<lparr>email = mail, referralCode = c, referredBy = code, referrals = []\<rparr>"
  using p
proof (cases rule: addUser_cases [where lc = lc and mail = mail and code = code])
  case (existing i r h')
  with s show ?thesis by (simp add: succeeded_def)
next
  case (raises e h')
  with s show ?thesis by (simp add: succeeded_def)
next
  case (new c r h')
  then show ?thesis by (simp add: persisted_def)
qed

theorem register_appends_one_witness:
  "persisted world_alice = Some [alice]
   \<and> succeeded (fst (addUser toLowerCase_latin1 (js ''bob@x.com'') (Some (js ''YWxpY2VAeC5jb20'')) world_alice))
   \<and> (\<exists>c r. generateReferralCode (js ''bob@x.com'') = Inr c
           \<and> persisted (snd (addUser toLowerCase_latin1 (js ''bob@x.com'') (Some (js ''YWxpY2VAeC5jb20'')) world_alice))
               = Some ([alice] @ [\<lparr>email = js ''bob@x.com'', referralCode = c,
                                   referredBy = Some (js ''YWxpY2VAeC5jb20''), referrals = []\<rparr>])
           \<and> user (projr (fst (addUser toLowerCase_latin1 (js ''bob@x.com'') (Some (js ''YWxpY2VAeC5jb20'')) world_alice))) = Some r
           \<and> heap (snd (addUser toLowerCase_latin1 (js ''bob@x.com'') (Some (js ''YWxpY2VAeC5jb20'')) world_alice)) ! r
               = \<lparr>email = js ''bob@x.com'', referralCode = c,
                  referredBy = Some (js ''YWxpY2VAeC5jb20''), referrals = []\<rparr>)"
proof -
  have h1: "persisted world_alice = Some [alice]"
    by (simp add: persisted_def world_alice_def)
  have h2: "succeeded (fst (addUser toLowerCase_latin1 (js ''bob@x.com'') (Some (js ''YWxpY2VAeC5jb20'')) world_alice))"
    by code_simp
  show ?thesis
    using h1 h2 register_appends_one [OF h1 h2] by blast
qed

section \<open>The rank reads the persisted waitlist\<close>

lemma map_sort_cmp:
  "map f (sort_cmp (\<lambda>a b. cmp (f a) (f b)) xs) = sort_cmp cmp (map f xs)"
proof -
  have ins: "map f (insert_cmp (\<lambda>a b. cmp (f a) (f b)) x ys) = insert_cmp cmp (f x) (map f ys)" for x ys
    by (induction ys) simp_all
  show ?thesis
    by (induction xs) (simp_all add: sort_cmp_def ins)
qed

lemma find_idx_map: "find_idx (\<lambda>r. P (f r)) xs = find_idx P (map f xs)"
  by (induction xs) simp_all

lemma getUserRank_persisted:
  assumes p: "persisted w = Some ws"
  shows "getUserRank usr w =
           (Inr (findIndex (\<lambda>u. email u = email usr) (sort_cmp rank_cmp ws) + 1), w\<lparr>heap := heap w @ ws\<rparr>)"
proof -
  let ?h = "heap w @ ws"
  let ?rs = "[length (heap w) ..< length (heap w) + length ws]"
  have m: "map ((!) ?h) ?rs = ws"
    using map_nth_fresh [of "heap w" ws "[]"] by simp
  have "map ((!) ?h) (sort_cmp (\<lambda>a b. rank_cmp (?h ! a) (?h ! b)) ?rs) = sort_cmp rank_cmp ws"
    using map_sort_cmp [of "(!) ?h" rank_cmp ?rs] m by simp
  then have "findIndex (\<lambda>r. email (?h ! r) = email usr) (sort_cmp (\<lambda>a b. rank_cmp (?h ! a) (?h ! b)) ?rs)
               = findIndex (\<lambda>u. email u = email usr) (sort_cmp rank_cmp ws)"
    using find_idx_map [of "\<lambda>u. email u = email usr" "(!) ?h"]
    by (simp add: findIndex_def)
  then show ?thesis
    using p by (simp add: getUserRank_def getWaitlist_persisted)
qed

section \<open>The invariant of the waitlist\<close>

text \<open>
  Claim C7. The store operations keep the invariant "one user per lowercase email": from
  a persisted waitlist that satisfies it, \<open>addUser\<close> with any email and any referral
  code leaves a persisted waitlist that satisfies it (also when it reports the email as
  registered already, and when it raises), and the reading operations \<open>getWaitlist\<close>,
  \<open>findUserByEmail\<close>, \<open>findUserByCode\<close> and \<open>getUserRank\<close> leave the persisted
  waitlist as it is.
\<close>

theorem store_preserves_unique_emails:
  assumes p: "persisted w = Some ws"
    and inv: "unique_emails lc ws"
  shows "(\<exists>ws'. persisted (snd (addUser lc mail code w)) = Some ws' \<and> unique_emails lc ws')
         \<and> persisted (snd (getWaitlist w)) = Some ws
         \<and> persisted (snd (findUserByEmail lc m w)) = Some ws
         \<and> persisted (snd (findUserByCode c w)) = Some ws
         \<and> persisted (snd (getUserRank usr w)) = Some ws"
proof -
  have "\<exists>ws'. persisted (snd (addUser lc mail code w)) = Some ws' \<and> unique_emails lc ws'"
    using p
  proof (cases rule: addUser_cases [where lc = lc and mail = mail and code = code])
    case (existing i r h')
    with p inv show ?thesis by simp
  next
    case (raises e h')
    with p inv show ?thesis by simp
  next
    case (new c r h')
    from new(1) have "lc mail \<notin> (\<lambda>u. lc (email u)) ` set ws"
      by (auto simp: find_idx_None)
    with inv new(3) show ?thesis
      by (simp add: persisted_def unique_emails_def)
  qed
  then show ?thesis
    using p
    by (simp add: getWaitlist_persisted findUserByEmail_persisted findUserByCode_persisted
        getUserRank_persisted)
qed

theorem store_preserves_unique_emails_witness:
  "persisted world_alice = Some [alice] \<and> unique_emails toLowerCase_latin1 [alice]
   \<and> (\<exists>ws'. persisted (snd (addUser toLowerCase_latin1 (js ''carol@x.com'') None world_alice)) = Some ws'
          \<and> unique_emails toLowerCase_latin1 ws')
   \<and> persisted (snd (getWaitlist world_alice)) = Some [alice]
   \<and> persisted (snd (findUserByEmail toLowerCase_latin1 (js ''carol@x.com'') world_alice)) = Some [alice]
   \<and> persisted (snd (findUserByCode (js ''YWxpY2VAeC5jb20'') world_alice)) = Some [alice]
   \<and> persisted (snd (getUserRank alice world_alice)) = Some [alice]"
proof -
  have h1: "persisted world_alice = Some [alice]"
    by (simp add: persisted_def world_alice_def)
  have h2: "unique_emails toLowerCase_latin1 [alice]"
    by (simp add: unique_emails_def)
  show ?thesis
    using h1 h2 store_preserves_unique_emails [OF h1 h2] by blast
qed

section \<open>Registering and finding again\<close>

text \<open>
  For an email whose code units are all below 256, \<open>addUser\<close> followed by
  \<open>findUserByEmail\<close> finds a user whose email is the given one after lowercasing.
\<close>

lemma findUserByEmail_found:
  assumes p: "persisted w = Some ws"
    and ex: "\<exists>u \<in> set ws. lc (email u) = lc m"
  shows "\<exists>r h'. findUserByEmail lc m w = (Inr (Some r), w\<lparr>heap := h'\<rparr>)
           \<and> r < length h' \<and> h' ! r \<in> set ws \<and> lc (email (h' ! r)) = lc m"
proof -
  from ex obtain i where i: "find_idx (\<lambda>u. lc (email u) = lc m) ws = Some i"
    by (cases "find_idx (\<lambda>u. lc (email u) = lc m) ws") (auto simp: find_idx_None)
  from find_idx_Some [OF i] have "i < length ws" "lc (email (ws ! i)) = lc m" by simp_all
  then show ?thesis
    using p i
    by (intro exI [of _ "length (heap w) + i"] exI [of _ "heap w @ ws"])
       (simp add: findUserByEmail_persisted nth_append)
qed

lemma generateReferralCode_latin1:
  "\<forall>u \<in> set m. u < 256 \<Longrightarrow> \<exists>c. generateReferralCode m = Inr c"
  by (simp add: generateReferralCode_def btoa_def)

lemma register_then_find_latin1:
  assumes p: "persisted w = Some ws"
    and l: "\<forall>u \<in> set mail. u < 256"
  shows "\<exists>r h'. findUserByEmail lc mail (snd (addUser lc mail code w))
                  = (Inr (Some r), (snd (addUser lc mail code w))\<lparr>heap := h'\<rparr>)
           \<and> r < length h' \<and> lc (email (h' ! r)) = lc mail"
  using p
proof (cases rule: addUser_cases [where lc = lc and mail = mail and code = code])
  case (existing i r h')
  from find_idx_Some [OF existing(1)] have "\<exists>u \<in> set ws. lc (email u) = lc mail"
    by (auto intro: nth_mem)
  moreover have "persisted (w\<lparr>heap := h'\<rparr>) = Some ws" using p by simp
  ultimately show ?thesis
    using findUserByEmail_found [of "w\<lparr>heap := h'\<rparr>" ws lc mail] existing(2) by auto
next
  case (raises e h')
  with generateReferralCode_latin1 [OF l] show ?thesis by auto
next
  case (new c r h')
  let ?new = "\<lparr>email = mail, referralCode = c, referredBy = code, referrals = []\<rparr>"
  let ?w' = "\<lparr>storage = Text_json (JArr (ws @ [?new])), heap = h'\<rparr>"
  have "persisted ?w' = Some (ws @ [?new])" by (simp add: persisted_def)
  moreover have "\<exists>u \<in> set (ws @ [?new]). lc (email u) = lc mail" by simp
  ultimately show ?thesis
    using findUserByEmail_found [of ?w' "ws @ [?new]" lc mail] new(3) by auto
qed

text \<open>
  Claim C5. For every email, \<open>addUser\<close> followed by \<open>findUserByEmail\<close> should
  return a user with that email. The code does not do this for an email with a code unit
  above 255, such as the email that starts with U+0142 below: \<^verbatim>\<open>btoa\<close> raises
  \<^verbatim>\<open>InvalidCharacterError\<close> inside \<open>generateReferralCode\<close>, \<open>addUser\<close>
  passes the exception on before it saves anything, and \<open>findUserByEmail\<close> then finds
  no user.
\<close>

theorem register_raises_outside_latin1:
  "addUser lc (322 # js ''@x.pl'') None world_empty = (Inl InvalidCharacterError, world_empty)
   \<and> findUserByEmail lc (322 # js ''@x.pl'') (snd (addUser lc (322 # js ''@x.pl'') None world_empty))
       = (Inr None, world_empty)"
  by (simp add: addUser_def findUserByEmail_def getWaitlist_def world_empty_def
      generateReferralCode_def btoa_def)

section \<open>Referral codes that resolve to no user\<close>

text \<open>
  For an email whose code units are all below 256 and that is not on the waitlist,
  \<open>addUser\<close> succeeds with any referral code, resolvable or not: the new record
  keeps the code as \<open>referredBy\<close> and no other record changes.
\<close>

lemma register_dangling_latin1:
  assumes p: "persisted w = Some ws"
    and n: "\<forall>u \<in> set ws. lc (email u) \<noteq> lc mail"
    and l: "\<forall>u \<in> set mail. u < 256"
  shows "\<exists>c. generateReferralCode mail = Inr c
           \<and> succeeded (fst (addUser lc mail (Some code) w))
           \<and> persisted (snd (addUser lc mail (Some code) w))
               = Some (ws @ [\<lparr>email = mail, referralCode = c, referredBy = Some code, referrals = []\<rparr>])"
  using p
proof (cases rule: addUser_cases [where lc = lc and mail = mail and code = "Some code"])
  case (existing i r h')
  with n find_idx_Some [OF existing(1)] show ?thesis by (auto dest: nth_mem)
next
  case (raises e h')
  with generateReferralCode_latin1 [OF l] show ?thesis by auto
next
  case (new c r h')
  then show ?thesis by (simp add: succeeded_def persisted_def)
qed

text \<open>
  Claim C10. Registering a new email with a referral code that no user has should
  succeed and keep the dangling code. The code does not do this for an email with a code
  unit above 255 (here U+674E): on the empty waitlist, where no code resolves,
  \<open>addUser\<close> raises \<^verbatim>\<open>InvalidCharacterError\<close> and creates no user. The cause is
  the one of claim C5.
\<close>

theorem register_dangling_raises_outside_latin1:
  "persisted world_empty = Some []
   \<and> findUserByCode (js ''nobody'') world_empty = (Inr None, world_empty)
   \<and> addUser lc (26446 # js ''@x.cn'') (Some (js ''nobody'')) world_empty
       = (Inl InvalidCharacterError, world_empty)
   \<and> \<not> succeeded (fst (addUser lc (26446 # js ''@x.cn'') (Some (js ''nobody'')) world_empty))"
  by (simp add: addUser_def findUserByEmail_def findUserByCode_def getWaitlist_def world_empty_def
      generateReferralCode_def btoa_def persisted_def succeeded_def)

section \<open>Referrals\<close>

text \<open>
  In every state, the records that were persisted before \<open>addUser\<close> are persisted
  unchanged after it, referrals included.
\<close>

lemma register_keeps_earlier_records:
  assumes p: "persisted w = Some ws"
  shows "\<exists>ws'. persisted (snd (addUser lc mail code w)) = Some (ws @ ws')"
  using p
proof (cases rule: addUser_cases [where lc = lc and mail = mail and code = code])
  case (existing i r h')
  with p show ?thesis by simp
next
  case (raises e h')
  with p show ?thesis by simp
next
  case (new c r h')
  then show ?thesis by (simp add: persisted_def)
qed

text \<open>
  Claim C1. Registering a new email with the referral code of a user should raise that
  user's referral count in the persisted waitlist by one. The code does not do this:
  \<open>findUserByCode\<close> reads the storage again, so the referrer it returns is a new
  object (here at address 3), the push changes that object, and \<open>saveWaitlist\<close>
  writes the array read at the start of \<open>addUser\<close>, whose objects are unchanged. With
  alice alone on the waitlist, registering bob with alice's code persists alice with no
  referrals, so her count stays 0.
\<close>

theorem referral_not_persisted:
  "persisted (snd (addUser toLowerCase_latin1 (js ''bob@x.com'') (Some (referralCode alice)) world_alice))
     = Some [alice, \<lparr>email = js ''bob@x.com'', referralCode = js ''Ym9iQHguY29t'',
                     referredBy = Some (referralCode alice), referrals = []\<rparr>]
   \<and> getReferralCount alice = 0
   \<and> heap (snd (addUser toLowerCase_latin1 (js ''bob@x.com'') (Some (referralCode alice)) world_alice)) ! 3
       = alice\<lparr>referrals := [js ''bob@x.com'']\<rparr>"
  by code_simp

section \<open>Reading a storage entry that holds no waitlist\<close>

text \<open>
  When the storage entry is absent, or its text is empty, or its text is not JSON,
  \<open>getWaitlist\<close> returns the empty array and changes nothing. When the text is
  JSON but not an array, \<open>getWaitlist\<close> returns the parsed value as it is.
\<close>

lemma getWaitlist_unreadable_empty:
  assumes "storage w = Absent \<or> storage w = Text_empty \<or> storage w = Text_invalid"
  shows "getWaitlist w = (Array [], w)"
  using assms by (auto simp: getWaitlist_def)

lemma getWaitlist_nonarray:
  "storage w = Text_json (JOther x) \<Longrightarrow> getWaitlist w = (Other x, w)"
  by (simp add: getWaitlist_def JSON_parse_def)

text \<open>
  Claim C6. Whenever the storage entry is missing or cannot be parsed as a waitlist,
  \<open>getWaitlist\<close> should return the empty array. The code does not do this for an
  entry whose text is JSON but not a waitlist. For the text \<^verbatim>\<open>null\<close> the entry does
  not read as a waitlist, \<^verbatim>\<open>JSON.parse\<close> does not raise, and \<open>getWaitlist\<close>
  returns \<^verbatim>\<open>null\<close> itself, although it declares an array of users as its result
  and returns the empty array on its other recovery paths. Its callers
  \<open>findUserByEmail\<close>, \<open>findUserByCode\<close>, \<open>addUser\<close> and \<open>getUserRank\<close> then
  raise \<^verbatim>\<open>TypeError\<close>.
\<close>

theorem getWaitlist_null_not_empty:
  "persisted world_null = None
   \<and> getWaitlist world_null = (Other JNull, world_null)
   \<and> fst (getWaitlist world_null) \<noteq> Array []
   \<and> findUserByEmail lc (js ''alice@x.com'') world_null = (Inl TypeError, world_null)
   \<and> findUserByCode (js ''YWxpY2VAeC5jb20'') world_null = (Inl TypeError, world_null)
   \<and> addUser lc (js ''alice@x.com'') None world_null = (Inl TypeError, world_null)
   \<and> getUserRank alice world_null = (Inl TypeError, world_null)"
  by (simp add: persisted_def world_null_def getWaitlist_def JSON_parse_def
      findUserByEmail_def findUserByCode_def addUser_def getUserRank_def)

section \<open>The two source files\<close>

text \<open>
  Claim C9. The eight store functions of \<^verbatim>\<open>src/unnamed/part_000\<close> are equal, as
  functions, to those of \<^verbatim>\<open>src/src/App.tsx\<close>: on every input and every world they
  return the same result and leave the same storage entry and heap.
\<close>

theorem variants_equal:
  "generateReferralCode_part000 = generateReferralCode
   \<and> getWaitlist_part000 = getWaitlist
   \<and> saveWaitlist_part000 = saveWaitlist
   \<and> findUserByEmail_part000 = findUserByEmail
   \<and> findUserByCode_part000 = findUserByCode
   \<and> addUser_part000 = addUser
   \<and> getReferralCount_part000 = getReferralCount
   \<and> getUserRank_part000 = getUserRank"
proof -
  have g: "generateReferralCode_part000 = generateReferralCode"
    by (intro ext) (unfold generateReferralCode_part000_def generateReferralCode_def, rule refl)
  have w: "getWaitlist_part000 = getWaitlist"
    by (intro ext) (unfold getWaitlist_part000_def getWaitlist_def, rule refl)
  have s: "saveWaitlist_part000 = saveWaitlist"
    by (intro ext) (unfold saveWaitlist_part000_def saveWaitlist_def, rule refl)
  have e: "findUserByEmail_part000 = findUserByEmail"
    by (intro ext) (unfold findUserByEmail_part000_def findUserByEmail_def w, rule refl)
  have c: "findUserByCode_part000 = findUserByCode"
    by (intro ext) (unfold findUserByCode_part000_def findUserByCode_def w, rule refl)
  have r: "record_referral_part000 = record_referral"
    by (intro ext) (unfold record_referral_part000_def record_referral_def c, rule refl)
  have a: "addUser_part000 = addUser"
    by (intro ext) (unfold addUser_part000_def addUser_def w e g r s, rule refl)
  have n: "getReferralCount_part000 = getReferralCount"
    by (intro ext) (unfold getReferralCount_part000_def getReferralCount_def, rule refl)
  have k: "rank_cmp_part000 = rank_cmp"
    by (intro ext) (unfold rank_cmp_part000_def rank_cmp_def n, rule refl)
  have u: "getUserRank_part000 = getUserRank"
    by (intro ext) (unfold getUserRank_part000_def getUserRank_def w k, rule refl)
  from g w s e c a n u show ?thesis by simp
qed

section \<open>The rank\<close>

text \<open>
  The comparator orders by descending referral count, and the sort is the stable
  insertion sort of the library under the key "minus the count".
\<close>

lemma sort_cmp_rank_cmp:
  "sort_cmp rank_cmp ws = sort_key (\<lambda>u. - int (getReferralCount u)) ws"
proof -
  have ins: "insert_cmp rank_cmp x ys = insort_key (\<lambda>u. - int (getReferralCount u)) x ys" for x ys
    by (induction ys) (simp_all add: rank_cmp_def)
  show ?thesis
    by (induction ws) (simp_all add: sort_cmp_def ins)
qed

lemma sort_cmp_rank_mset: "mset (sort_cmp rank_cmp ws) = mset ws"
  by (simp add: sort_cmp_rank_cmp)

lemma sort_cmp_rank_descending:
  assumes "i < j" and "j < length ws"
  shows "getReferralCount (sort_cmp rank_cmp ws ! j) \<le> getReferralCount (sort_cmp rank_cmp ws ! i)"
proof -
  let ?f = "\<lambda>u. - int (getReferralCount u)"
  let ?S = "sort_key ?f ws"
  have "sorted (map ?f ?S)" by (rule sorted_sort_key)
  moreover have "i \<le> j" "j < length (map ?f ?S)" using assms by simp_all
  ultimately have "map ?f ?S ! i \<le> map ?f ?S ! j" by (rule sorted_nth_mono)
  then show ?thesis using assms by (simp add: sort_cmp_rank_cmp)
qed

lemma sort_cmp_rank_stable:
  "filter (\<lambda>v. getReferralCount v = n) (sort_cmp rank_cmp ws) = filter (\<lambda>v. getReferralCount v = n) ws"
  using sort_key_stable [of "\<lambda>u. - int (getReferralCount u)" "- int n" ws]
  by (simp add: sort_cmp_rank_cmp)

lemma find_idx_email_unique:
  assumes d: "distinct (map email xs)" and u: "u \<in> set xs"
  shows "\<exists>i. find_idx (\<lambda>v. email v = email u) xs = Some i \<and> i < length xs \<and> xs ! i = u"
proof -
  from u obtain i where i: "find_idx (\<lambda>v. email v = email u) xs = Some i"
    by (cases "find_idx (\<lambda>v. email v = email u) xs") (auto simp: find_idx_None)
  from find_idx_Some [OF i] have l: "i < length xs" and e: "email (xs ! i) = email u" by simp_all
  from d have "inj_on email (set xs)" by (simp add: distinct_map)
  with e u l have "xs ! i = u" by (auto dest: inj_onD)
  with i l show ?thesis by blast
qed

text \<open>
  Claim C4. Let the persisted waitlist hold one record per email, as the data model
  requires, and let \<open>u\<close> be one of its users. \<open>getUserRank\<close> sorts the waitlist
  with its comparator; by \<open>getUserRank_persisted\<close> the sorted array is
  \<open>sort_cmp rank_cmp ws\<close>. The rank returned is \<open>k\<close>, between 1 and the number of
  users, and \<open>u\<close> stands at position \<open>k\<close> of the sorted array, counted from 1, and
  nowhere else. The sorted array is the waitlist reordered; referral counts never
  increase along it; and the users of each referral count stand in it in the order they
  have in the waitlist, which is the order of insertion.
\<close>

theorem rank_is_position_in_stable_order:
  assumes p: "persisted w = Some ws"
    and d: "distinct (map email ws)"
    and u: "u \<in> set ws"
  shows "\<exists>k. fst (getUserRank u w) = Inr (int k) \<and> 1 \<le> k \<and> k \<le> length ws
          \<and> sort_cmp rank_cmp ws ! (k - 1) = u
          \<and> distinct (sort_cmp rank_cmp ws)
          \<and> mset (sort_cmp rank_cmp ws) = mset ws
          \<and> (\<forall>i j. i < j \<and> j < length ws \<longrightarrow>
                getReferralCount (sort_cmp rank_cmp ws ! j) \<le> getReferralCount (sort_cmp rank_cmp ws ! i))
          \<and> (\<forall>n. filter (\<lambda>v. getReferralCount v = n) (sort_cmp rank_cmp ws)
                  = filter (\<lambda>v. getReferralCount v = n) ws)"
proof -
  let ?S = "sort_cmp rank_cmp ws"
  have m: "mset ?S = mset ws" by (rule sort_cmp_rank_mset)
  then have len: "length ?S = length ws" by (metis size_mset)
  from m have st: "set ?S = set ws" by (metis set_mset_mset)
  have "mset (map email ?S) = mset (map email ws)" using m by (metis mset_map)
  with d have dS: "distinct (map email ?S)" by (metis distinct_count_atmost_1 mset_eq_imp_distinct_iff)
  then have dS': "distinct ?S" by (simp add: distinct_map)
  from u st have "u \<in> set ?S" by simp
  from find_idx_email_unique [OF dS this] obtain i where
    i: "find_idx (\<lambda>v. email v = email u) ?S = Some i" "i < length ?S" "?S ! i = u" by blast
  have "fst (getUserRank u w) = Inr (int (Suc i))"
    using p i(1) by (simp add: getUserRank_persisted findIndex_def)
  moreover have "1 \<le> Suc i" "Suc i \<le> length ws" "?S ! (Suc i - 1) = u"
    using i len by simp_all
  ultimately show ?thesis
    using dS' m sort_cmp_rank_descending [of _ _ ws] sort_cmp_rank_stable [of _ ws]
    by blast
qed

theorem rank_is_position_in_stable_order_witness:
  "persisted world_three = Some [dave, erin, frank]
   \<and> distinct (map email [dave, erin, frank])
   \<and> frank \<in> set [dave, erin, frank]
   \<and> (\<exists>k. fst (getUserRank frank world_three) = Inr (int k) \<and> 1 \<le> k \<and> k \<le> length [dave, erin, frank]
          \<and> sort_cmp rank_cmp [dave, erin, frank] ! (k - 1) = frank
          \<and> distinct (sort_cmp rank_cmp [dave, erin, frank])
          \<and> mset (sort_cmp rank_cmp [dave, erin, frank]) = mset [dave, erin, frank]
          \<and> (\<forall>i j. i < j \<and> j < length [dave, erin, frank] \<longrightarrow>
                getReferralCount (sort_cmp rank_cmp [dave, erin, frank] ! j)
                  \<le> getReferralCount (sort_cmp rank_cmp [dave, erin, frank] ! i))
          \<and> (\<forall>n. filter (\<lambda>v. getReferralCount v = n) (sort_cmp rank_cmp [dave, erin, frank])
                  = filter (\<lambda>v. getReferralCount v = n) [dave, erin, frank]))"
proof -
  have h1: "persisted world_three = Some [dave, erin, frank]"
    by (simp add: persisted_def world_three_def)
  have h2: "distinct (map email [dave, erin, frank])"
    by (simp add: dave_def erin_def frank_def js_def)
  have h3: "frank \<in> set [dave, erin, frank]" by simp
  show ?thesis
    using h1 h2 h3 rank_is_position_in_stable_order [OF h1 h2 h3] by blast
qed

text \<open>The ranks of the three example users: erin, who has a referral, then dave, then frank.\<close>

lemma rank_example:
  "sort_cmp rank_cmp [dave, erin, frank] = [erin, dave, frank]
   \<and> fst (getUserRank erin world_three) = Inr 1
   \<and> fst (getUserRank dave world_three) = Inr 2
   \<and> fst (getUserRank frank world_three) = Inr 3"
  by code_simp

section \<open>The referral code\<close>

text \<open>
  The Base64 digits are distinct and none of them is the padding character, so removing
  the padding loses nothing, and the sextets determine the bytes.
\<close>

lemma b64_alphabet_length: "length b64_alphabet = 64"
  by (simp add: b64_alphabet_def js_def)

lemma b64_alphabet_distinct: "distinct b64_alphabet"
  by code_simp

lemma b64_alphabet_no_pad: "b64_pad \<notin> set b64_alphabet"
  by code_simp

lemma b64_digit_inj: "i < 64 \<Longrightarrow> j < 64 \<Longrightarrow> b64_digit i = b64_digit j \<longleftrightarrow> i = j"
  using b64_alphabet_distinct
  by (simp add: b64_digit_def nth_eq_iff_index_eq b64_alphabet_length)

lemma b64_digit_not_pad: "i < 64 \<Longrightarrow> b64_digit i \<noteq> b64_pad"
proof
  assume i: "i < 64" and e: "b64_digit i = b64_pad"
  from i have "b64_alphabet ! i \<in> set b64_alphabet"
    by (simp add: b64_alphabet_length)
  with e b64_alphabet_no_pad show False by (simp add: b64_digit_def)
qed

lemma strip_padding_Cons: "x \<noteq> b64_pad \<Longrightarrow> strip_padding (x # s) = x # strip_padding s"
  by (simp add: strip_padding_def dropWhile_append)

lemma strip_padding_pads [simp]:
  "strip_padding [] = []" "strip_padding [b64_pad] = []" "strip_padding [b64_pad, b64_pad] = []"
  by (simp_all add: strip_padding_def)

lemma strip_encode3:
  assumes "a < 256" "b < 256" "c < 256"
  shows "strip_padding (b64_encode (a # b # c # rest)) =
           b64_digit (a div 4) # b64_digit ((a mod 4) * 16 + b div 16)
             # b64_digit ((b mod 16) * 4 + c div 64) # b64_digit (c mod 64)
             # strip_padding (b64_encode rest)"
proof -
  have "a div 4 < 64" "(a mod 4) * 16 + b div 16 < 64" "(b mod 16) * 4 + c div 64 < 64" "c mod 64 < 64"
    using assms by simp_all
  then show ?thesis
    by (simp add: strip_padding_Cons b64_digit_not_pad)
qed

lemma strip_encode2:
  assumes "a < 256" "b < 256"
  shows "strip_padding (b64_encode [a, b]) =
           [b64_digit (a div 4), b64_digit ((a mod 4) * 16 + b div 16), b64_digit ((b mod 16) * 4)]"
proof -
  have "a div 4 < 64" "(a mod 4) * 16 + b div 16 < 64" "(b mod 16) * 4 < 64"
    using assms by simp_all
  then show ?thesis
    by (simp add: strip_padding_Cons b64_digit_not_pad)
qed

lemma strip_encode1:
  assumes "a < 256"
  shows "strip_padding (b64_encode [a]) = [b64_digit (a div 4), b64_digit ((a mod 4) * 16)]"
proof -
  have "a div 4 < 64" "(a mod 4) * 16 < 64"
    using assms by simp_all
  then show ?thesis
    by (simp add: strip_padding_Cons b64_digit_not_pad)
qed

lemma sextets_inj1:
  fixes a a' :: nat
  assumes "a div 4 = a' div 4" and "(a mod 4) * 16 = (a' mod 4) * 16"
  shows "a = a'"
proof -
  from assms(2) have "a mod 4 = a' mod 4" by simp
  with assms(1) show ?thesis by (metis div_mult_mod_eq)
qed

lemma split16:
  fixes x y x' y' :: nat
  assumes "y < n" "y' < n" "x * n + y = x' * n + y'"
  shows "x = x' \<and> y = y'"
proof -
  have "(x * n + y) div n = (x' * n + y') div n" by (simp only: assms(3))
  then have "x = x'" using assms(1,2) by simp
  with assms(3) show ?thesis by simp
qed

lemma sextets_inj2:
  fixes a b a' b' :: nat
  assumes "b < 256" "b' < 256"
    and "a div 4 = a' div 4"
    and "(a mod 4) * 16 + b div 16 = (a' mod 4) * 16 + b' div 16"
    and "(b mod 16) * 4 = (b' mod 16) * 4"
  shows "a = a' \<and> b = b'"
proof -
  have "b div 16 < 16" "b' div 16 < 16" using assms(1,2) by simp_all
  from split16 [OF this assms(4)] have 1: "a mod 4 = a' mod 4" "b div 16 = b' div 16" by simp_all
  from assms(5) have 2: "b mod 16 = b' mod 16" by simp
  from 1(1) assms(3) have "a = a'" by (metis div_mult_mod_eq)
  moreover from 1(2) 2 have "b = b'" by (metis div_mult_mod_eq)
  ultimately show ?thesis by simp
qed

lemma sextets_inj3:
  fixes a b c a' b' c' :: nat
  assumes "b < 256" "c < 256" "b' < 256" "c' < 256"
    and "a div 4 = a' div 4"
    and "(a mod 4) * 16 + b div 16 = (a' mod 4) * 16 + b' div 16"
    and "(b mod 16) * 4 + c div 64 = (b' mod 16) * 4 + c' div 64"
    and "c mod 64 = c' mod 64"
  shows "a = a' \<and> b = b' \<and> c = c'"
proof -
  have "b div 16 < 16" "b' div 16 < 16" using assms(1,3) by simp_all
  from split16 [OF this assms(6)] have 1: "a mod 4 = a' mod 4" "b div 16 = b' div 16" by simp_all
  have "c div 64 < 4" "c' div 64 < 4" using assms(2,4) by simp_all
  from split16 [OF this assms(7)] have 2: "b mod 16 = b' mod 16" "c div 64 = c' div 64" by simp_all
  from 1(1) assms(5) have "a = a'" by (metis div_mult_mod_eq)
  moreover from 1(2) 2(1) have "b = b'" by (metis div_mult_mod_eq)
  moreover from 2(2) assms(8) have "c = c'" by (metis div_mult_mod_eq)
  ultimately show ?thesis by simp
qed

lemma sextet_bounds:
  fixes a b c :: nat
  assumes "a < 256" "b < 256" "c < 256"
  shows "a div 4 < 64" "(a mod 4) * 16 + b div 16 < 64" "(b mod 16) * 4 + c div 64 < 64"
    "c mod 64 < 64" "(b mod 16) * 4 < 64" "(a mod 4) * 16 < 64"
  using assms by simp_all

lemma strip_encode_inj:
  assumes "\<forall>u \<in> set s. u < 256" and "\<forall>u \<in> set t. u < 256"
    and "strip_padding (b64_encode s) = strip_padding (b64_encode t)"
  shows "s = t"
  using assms
proof (induction s arbitrary: t rule: b64_encode.induct)
  case (1 a b c rest)
  then have ab: "a < 256" "b < 256" "c < 256" by simp_all
  note bd = sextet_bounds [OF ab] 
  show ?case
  proof (cases t rule: b64_encode.cases)
    case (1 a' b' c' rest')
    with "1.prems" have ab': "a' < 256" "b' < 256" "c' < 256" by simp_all
    note bd' = sextet_bounds [OF ab']
    from "1.prems"(3) have eq:
      "b64_digit (a div 4) = b64_digit (a' div 4)"
      "b64_digit ((a mod 4) * 16 + b div 16) = b64_digit ((a' mod 4) * 16 + b' div 16)"
      "b64_digit ((b mod 16) * 4 + c div 64) = b64_digit ((b' mod 16) * 4 + c' div 64)"
      "b64_digit (c mod 64) = b64_digit (c' mod 64)"
      "strip_padding (b64_encode rest) = strip_padding (b64_encode rest')"
      unfolding 1 strip_encode3 [OF ab] strip_encode3 [OF ab'] by simp_all
    from eq(1-4) bd(1-4) bd'(1-4) have
      "a div 4 = a' div 4" "(a mod 4) * 16 + b div 16 = (a' mod 4) * 16 + b' div 16"
      "(b mod 16) * 4 + c div 64 = (b' mod 16) * 4 + c' div 64" "c mod 64 = c' mod 64"
      by (simp_all only: b64_digit_inj)
    from sextets_inj3 [OF ab(2,3) ab'(2,3) this] have abc: "a = a'" "b = b'" "c = c'" by simp_all
    from "1.prems" 1 have "rest = rest'"
      by (intro "1.IH" eq(5)) simp_all
    with abc 1 show ?thesis by simp
  next
    case (2 a' b')
    with "1.prems" have ab': "a' < 256" "b' < 256" by simp_all
    from "1.prems"(3) show ?thesis
      unfolding 2 strip_encode3 [OF ab] strip_encode2 [OF ab'] by simp
  next
    case (3 a')
    with "1.prems" have ab': "a' < 256" by simp_all
    from "1.prems"(3) show ?thesis
      unfolding 3 strip_encode3 [OF ab] strip_encode1 [OF ab'] by simp
  next
    case 4
    from "1.prems"(3) show ?thesis
      unfolding 4 strip_encode3 [OF ab] by simp
  qed
next
  case (2 a b)
  then have ab: "a < 256" "b < 256" by simp_all
  note bd = sextet_bounds [OF ab ab(2)]
  show ?case
  proof (cases t rule: b64_encode.cases)
    case (1 a' b' c' rest')
    with "2.prems" have ab': "a' < 256" "b' < 256" "c' < 256" by simp_all
    from "2.prems"(3) show ?thesis
      unfolding 1 strip_encode2 [OF ab] strip_encode3 [OF ab'] by simp
  next
    case (2 a' b')
    with "2.prems" have ab': "a' < 256" "b' < 256" by simp_all
    note bd' = sextet_bounds [OF ab' ab'(2)]
    from "2.prems"(3) have eq:
      "b64_digit (a div 4) = b64_digit (a' div 4)"
      "b64_digit ((a mod 4) * 16 + b div 16) = b64_digit ((a' mod 4) * 16 + b' div 16)"
      "b64_digit ((b mod 16) * 4) = b64_digit ((b' mod 16) * 4)"
      unfolding 2 strip_encode2 [OF ab] strip_encode2 [OF ab'] by simp_all
    from eq bd(1,2,5) bd'(1,2,5) have
      "a div 4 = a' div 4" "(a mod 4) * 16 + b div 16 = (a' mod 4) * 16 + b' div 16"
      "(b mod 16) * 4 = (b' mod 16) * 4"
      by (simp_all only: b64_digit_inj)
    from sextets_inj2 [OF ab(2) ab'(2) this] 2 show ?thesis by simp
  next
    case (3 a')
    with "2.prems" have ab': "a' < 256" by simp_all
    from "2.prems"(3) show ?thesis
      unfolding 3 strip_encode2 [OF ab] strip_encode1 [OF ab'] by simp
  next
    case 4
    from "2.prems"(3) show ?thesis
      unfolding 4 strip_encode2 [OF ab] by simp
  qed
next
  case (3 a)
  then have ab: "a < 256" by simp_all
  note bd = sextet_bounds [OF ab ab ab]
  show ?case
  proof (cases t rule: b64_encode.cases)
    case (1 a' b' c' rest')
    with "3.prems" have ab': "a' < 256" "b' < 256" "c' < 256" by simp_all
    from "3.prems"(3) show ?thesis
      unfolding 1 strip_encode1 [OF ab] strip_encode3 [OF ab'] by simp
  next
    case (2 a' b')
    with "3.prems" have ab': "a' < 256" "b' < 256" by simp_all
    from "3.prems"(3) show ?thesis
      unfolding 2 strip_encode1 [OF ab] strip_encode2 [OF ab'] by simp
  next
    case (3 a')
    with "3.prems" have ab': "a' < 256" by simp_all
    note bd' = sextet_bounds [OF ab' ab' ab']
    from "3.prems"(3) have eq:
      "b64_digit (a div 4) = b64_digit (a' div 4)"
      "b64_digit ((a mod 4) * 16) = b64_digit ((a' mod 4) * 16)"
      unfolding 3 strip_encode1 [OF ab] strip_encode1 [OF ab'] by simp_all
    from eq bd(1,6) bd'(1,6) have "a div 4 = a' div 4" "(a mod 4) * 16 = (a' mod 4) * 16"
      by (simp_all only: b64_digit_inj)
    from sextets_inj1 [OF this] 3 show ?thesis by simp
  next
    case 4
    from "3.prems"(3) show ?thesis
      unfolding 4 strip_encode1 [OF ab] by simp
  qed
next
  case 4
  show ?case
  proof (cases t rule: b64_encode.cases)
    case (1 a' b' c' rest')
    with "4.prems" have ab': "a' < 256" "b' < 256" "c' < 256" by simp_all
    from "4.prems"(3) show ?thesis
      unfolding 1 strip_encode3 [OF ab'] by simp
  next
    case (2 a' b')
    with "4.prems" have ab': "a' < 256" "b' < 256" by simp_all
    from "4.prems"(3) show ?thesis
      unfolding 2 strip_encode2 [OF ab'] by simp
  next
    case (3 a')
    with "4.prems" have ab': "a' < 256" by simp_all
    from "4.prems"(3) show ?thesis
      unfolding 3 strip_encode1 [OF ab'] by simp
  next
    case 4
    then show ?thesis by simp
  qed
qed

lemma strip_padding_last: "strip_padding s \<noteq> [] \<Longrightarrow> last (strip_padding s) \<noteq> b64_pad"
  using hd_dropWhile [of "\<lambda>c. c = b64_pad" "rev s"]
  by (simp add: strip_padding_def last_rev)

text \<open>
  Claim C3, as stated: two emails that are equal after lowercasing, and so are one user
  for the uniqueness check of \<open>findUserByEmail\<close>, have the same referral code. This
  fails: \<open>generateReferralCode\<close> encodes the email as it is written, and the codes of
  \<^verbatim>\<open>A@x.com\<close> and \<^verbatim>\<open>a@x.com\<close> differ.
\<close>

theorem case_changes_code_counterexample:
  "toLowerCase_latin1 (js ''A@x.com'') = toLowerCase_latin1 (js ''a@x.com'')
   \<and> generateReferralCode (js ''A@x.com'') = Inr (js ''QUB4LmNvbQ'')
   \<and> generateReferralCode (js ''a@x.com'') = Inr (js ''YUB4LmNvbQ'')
   \<and> generateReferralCode (js ''A@x.com'') \<noteq> generateReferralCode (js ''a@x.com'')"
  by code_simp

text \<open>
  Claim C3, amended: the referral code is a function of the email as it is written, the
  Base64 encoding of its code units with the padding at the end removed, and this
  encoding is injective: two emails with the same code are the same string. So the code
  does not end in the padding character, and emails that differ in letter case have
  different codes.
\<close>

theorem referral_code_injective:
  assumes a: "generateReferralCode a = Inr c"
    and b: "generateReferralCode b = Inr c"
  shows "a = b \<and> c = strip_padding (b64_encode a) \<and> (c \<noteq> [] \<longrightarrow> last c \<noteq> b64_pad)"
proof -
  from a have la: "\<forall>u \<in> set a. u < 256" and ca: "c = strip_padding (b64_encode a)"
    by (auto simp: generateReferralCode_def btoa_def split: if_splits)
  from b have lb: "\<forall>u \<in> set b. u < 256" and cb: "c = strip_padding (b64_encode b)"
    by (auto simp: generateReferralCode_def btoa_def split: if_splits)
  from ca cb have "strip_padding (b64_encode a) = strip_padding (b64_encode b)" by simp
  from strip_encode_inj [OF la lb this] have "a = b" .
  with ca strip_padding_last [of "b64_encode a"] show ?thesis by simp
qed

theorem referral_code_injective_witness:
  "generateReferralCode (js ''a@x.com'') = Inr (js ''YUB4LmNvbQ'')
   \<and> js ''a@x.com'' = js ''a@x.com''
   \<and> js ''YUB4LmNvbQ'' = strip_padding (b64_encode (js ''a@x.com''))
   \<and> last (js ''YUB4LmNvbQ'') \<noteq> b64_pad"
proof -
  have h: "generateReferralCode (js ''a@x.com'') = Inr (js ''YUB4LmNvbQ'')"
    by code_simp
  have n: "js ''YUB4LmNvbQ'' \<noteq> []" by (simp add: js_def)
  from referral_code_injective [OF h h]
  have "js ''YUB4LmNvbQ'' = strip_padding (b64_encode (js ''a@x.com''))"
    and "js ''YUB4LmNvbQ'' \<noteq> [] \<longrightarrow> last (js ''YUB4LmNvbQ'') \<noteq> b64_pad"
    by blast+
  with h n show ?thesis by blast
qed

end
